theory Spec2Isabelle
  imports Main "HOL-Library.AList"
begin

section \<open>Symbolic function registration (torch/onnx/_internal/registration.py)\<close>

subsection \<open>Values, errors, warnings\<close>

type_synonym OpsetVersion = int

text \<open>
  The exceptions the module can raise. \<open>KeyError\<close> carries the key, as \<open>KeyError(key)\<close>
  does (the type of keys is the parameter); the message texts of \<open>ValueError\<close> are not modelled. \<open>InvalidReference\<close> is not
  an exception of the source: it is what the model answers when a method is called on an
  object id that was never allocated, which no Python program can do.
\<close>

datatype 'k error = AssertionError | KeyError 'k | ValueError | InvalidReference

text \<open>
  \<open>warnings.warn\<close> is modelled as appending to a log. The two warnings of the module keep
  their category and the name and opset their message is formatted from.
\<close>

datatype warning =
    OnnxExporterWarning string OpsetVersion
  | UserWarning string OpsetVersion

text \<open>
  Modelled from the spec: the constant \<open>_constants.ONNX_BASE_OPSET\<close>, defined in
  torch/onnx/_constants.py, is not part of the sources at hand. The specification fixes
  \<open>BASE_VERSION = 9\<close>, and the comment in \<open>_dispatch_opset_version\<close> says
  "Always round toward opset 9 (ONNX_BASE_OPSET)". The general theorems below never
  unfold this definition.
\<close>

definition ONNX_BASE_OPSET :: OpsetVersion where
  "ONNX_BASE_OPSET = 9"

subsection \<open>Python dictionaries\<close>

text \<open>
  A \<open>dict\<close> is an association list in insertion order: \<open>d[k] = v\<close> is
  \<^const>\<open>AList.update\<close> (in place for a key that is present, appended otherwise),
  \<open>d.pop(k, None)\<close> is \<^const>\<open>AList.delete\<close>, \<open>d.get(k)\<close> is \<^const>\<open>map_of\<close>, iteration
  yields \<open>map fst d\<close>. \<open>{**a, **b}\<close> stores the items of \<open>b\<close>, in order, into a copy
  of \<open>a\<close>.
\<close>

type_synonym ('k, 'v) dict = "('k \<times> 'v) list"

definition dict_merge :: "('k, 'v) dict \<Rightarrow> ('k, 'v) dict \<Rightarrow> ('k, 'v) dict" where
  "dict_merge a b = fold (\<lambda>(k, v). AList.update k v) b a"

subsection \<open>\<open>_dispatch_opset_version\<close>\<close>

text \<open>
  \<open>available_opsets\<close> is the collection as it iterates; the collection is falsy exactly
  when it iterates over nothing. The two \<open>for\<close> loops return at the
  first version that passes the test, which is \<^const>\<open>List.find\<close>; the \<open>assert\<close> raises
  \<open>AssertionError\<close> when its condition is false.
\<close>

definition dispatch_opset_version ::
  "OpsetVersion \<Rightarrow> OpsetVersion list \<Rightarrow> OpsetVersion error + OpsetVersion option" where
  "dispatch_opset_version target available_opsets =
     (if available_opsets = [] then Inr None
      else
        let available_versions = sort available_opsets in
        case List.find (\<lambda>version. ONNX_BASE_OPSET \<le> version \<and> version \<le> target)
               (rev available_versions) of
          Some version \<Rightarrow> Inr (Some version)
        | None \<Rightarrow>
            (case List.find (\<lambda>version. target \<le> version \<and> version \<le> ONNX_BASE_OPSET)
                    available_versions of
               Some version \<Rightarrow> Inr (Some version)
             | None \<Rightarrow>
                 if available_versions = []
                    \<or> (ONNX_BASE_OPSET \<le> target \<and> target < hd available_versions)
                    \<or> (last available_versions < ONNX_BASE_OPSET \<and> ONNX_BASE_OPSET < target)
                 then Inr None
                 else Inl AssertionError))"

subsection \<open>\<open>OverrideDict\<close>\<close>

record ('k, 'v) OverrideDict =
  od_base :: "('k, 'v) dict"
  od_overrides :: "('k, 'v) dict"
  od_merged :: "('k, 'v) dict"

definition OverrideDict_init :: "('k, 'v) OverrideDict" where
  "OverrideDict_init = \<lparr>od_base = [], od_overrides = [], od_merged = []\<rparr>"

definition OverrideDict_override ::
  "'k \<Rightarrow> 'v \<Rightarrow> ('k, 'v) OverrideDict \<Rightarrow> ('k, 'v) OverrideDict" where
  "OverrideDict_override key val d =
     d\<lparr>od_overrides := AList.update key val (od_overrides d),
       od_merged := AList.update key val (od_merged d)\<rparr>"

definition OverrideDict_remove_override ::
  "'k \<Rightarrow> ('k, 'v) OverrideDict \<Rightarrow> ('k, 'v) OverrideDict" where
  "OverrideDict_remove_override key d =
     (let ov = AList.delete key (od_overrides d)
      in d\<lparr>od_overrides := ov, od_merged := dict_merge (od_base d) ov\<rparr>)"

definition OverrideDict_overrides :: "('k, 'v) OverrideDict \<Rightarrow> 'k list" where
  "OverrideDict_overrides d = map fst (od_overrides d)"

definition OverrideDict_overridden :: "'k \<Rightarrow> ('k, 'v) OverrideDict \<Rightarrow> bool" where
  "OverrideDict_overridden key d = (map_of (od_overrides d) key \<noteq> None)"

definition OverrideDict_in_base :: "'k \<Rightarrow> ('k, 'v) OverrideDict \<Rightarrow> bool" where
  "OverrideDict_in_base key d = (map_of (od_base d) key \<noteq> None)"

definition OverrideDict_getitem :: "'k \<Rightarrow> ('k, 'v) OverrideDict \<Rightarrow> 'k error + 'v" where
  "OverrideDict_getitem key d =
     (case map_of (od_merged d) key of None \<Rightarrow> Inl (KeyError key) | Some v \<Rightarrow> Inr v)"

definition OverrideDict_setitem ::
  "'k \<Rightarrow> 'v \<Rightarrow> ('k, 'v) OverrideDict \<Rightarrow> ('k, 'v) OverrideDict" where
  "OverrideDict_setitem key val d =
     (let b = AList.update key val (od_base d)
      in d\<lparr>od_base := b, od_merged := dict_merge b (od_overrides d)\<rparr>)"

definition OverrideDict_get :: "'k \<Rightarrow> 'v option \<Rightarrow> ('k, 'v) OverrideDict \<Rightarrow> 'v option" where
  "OverrideDict_get key dflt d =
     (case map_of (od_merged d) key of None \<Rightarrow> dflt | Some v \<Rightarrow> Some v)"

definition OverrideDict_contains :: "'k \<Rightarrow> ('k, 'v) OverrideDict \<Rightarrow> bool" where
  "OverrideDict_contains key d = (map_of (od_merged d) key \<noteq> None)"

definition OverrideDict_iter :: "('k, 'v) OverrideDict \<Rightarrow> 'k list" where
  "OverrideDict_iter d = map fst (od_merged d)"

definition OverrideDict_len :: "('k, 'v) OverrideDict \<Rightarrow> nat" where
  "OverrideDict_len d = length (od_merged d)"

definition OverrideDict_bool :: "('k, 'v) OverrideDict \<Rightarrow> bool" where
  "OverrideDict_bool d = (od_merged d \<noteq> [])"

subsection \<open>\<open>_SymbolicFunctionGroup\<close> and the cache of \<open>get\<close>\<close>

record 'h SymbolicFunctionGroup =
  grp_name :: string
  grp_functions :: "(OpsetVersion, 'h) OverrideDict"

text \<open>
  Groups are objects: the store \<open>heap\<close> maps an object id to the group's fields, and
  \<open>next_id\<close> is the next id the constructor hands out. \<open>functools.lru_cache\<close> decorates
  the function \<open>get\<close> in the class body, so there is one cache for all groups, keyed by
  the arguments \<open>(self, opset)\<close>, and \<open>self.get.cache_clear()\<close> empties all of it. With
  \<open>maxsize=None\<close> nothing is ever evicted. A method takes the world and returns its
  outcome together with the world it leaves behind, also when it raises.
\<close>

record 'h world =
  heap :: "nat \<rightharpoonup> 'h SymbolicFunctionGroup"
  next_id :: nat
  get_cache :: "(nat \<times> OpsetVersion) \<rightharpoonup> 'h option"
  warnings :: "warning list"

definition init_world :: "'h world" where
  "init_world = \<lparr>heap = Map.empty, next_id = 0, get_cache = Map.empty, warnings = []\<rparr>"

definition SymbolicFunctionGroup_init :: "string \<Rightarrow> 'h world \<Rightarrow> nat \<times> 'h world" where
  "SymbolicFunctionGroup_init name w =
     (next_id w,
      w\<lparr>heap := (heap w)(next_id w \<mapsto> \<lparr>grp_name = name, grp_functions = OverrideDict_init\<rparr>),
        next_id := Suc (next_id w)\<rparr>)"

text \<open>The body of \<open>get\<close>, under the decorator.\<close>

definition SymbolicFunctionGroup_get_uncached ::
  "'h SymbolicFunctionGroup \<Rightarrow> OpsetVersion \<Rightarrow> OpsetVersion error + 'h option" where
  "SymbolicFunctionGroup_get_uncached g opset =
     (case dispatch_opset_version opset (OverrideDict_iter (grp_functions g)) of
        Inl e \<Rightarrow> Inl e
      | Inr None \<Rightarrow> Inr None
      | Inr (Some version) \<Rightarrow>
          (case OverrideDict_getitem version (grp_functions g) of
             Inl e \<Rightarrow> Inl e
           | Inr f \<Rightarrow> Inr (Some f)))"

text \<open>
  \<open>get\<close> as decorated: a hit returns the stored result; a miss runs the body and stores
  what it returns; a body that raises stores nothing.
\<close>

definition SymbolicFunctionGroup_get ::
  "nat \<Rightarrow> OpsetVersion \<Rightarrow> 'h world \<Rightarrow> (OpsetVersion error + 'h option) \<times> 'h world" where
  "SymbolicFunctionGroup_get self opset w =
     (case get_cache w (self, opset) of
        Some r \<Rightarrow> (Inr r, w)
      | None \<Rightarrow>
          (case heap w self of
             None \<Rightarrow> (Inl InvalidReference, w)
           | Some g \<Rightarrow>
               (case SymbolicFunctionGroup_get_uncached g opset of
                  Inl e \<Rightarrow> (Inl e, w)
                | Inr r \<Rightarrow> (Inr r, w\<lparr>get_cache := (get_cache w)((self, opset) \<mapsto> r)\<rparr>))))"

definition SymbolicFunctionGroup_getitem ::
  "nat \<Rightarrow> OpsetVersion \<Rightarrow> 'h world \<Rightarrow> (OpsetVersion error + 'h) \<times> 'h world" where
  "SymbolicFunctionGroup_getitem self key w =
     (case SymbolicFunctionGroup_get self key w of
        (Inl e, w') \<Rightarrow> (Inl e, w')
      | (Inr None, w') \<Rightarrow> (Inl (KeyError key), w')
      | (Inr (Some result), w') \<Rightarrow> (Inr result, w'))"

definition SymbolicFunctionGroup_add ::
  "nat \<Rightarrow> 'h \<Rightarrow> OpsetVersion \<Rightarrow> 'h world \<Rightarrow> (OpsetVersion error + unit) \<times> 'h world" where
  "SymbolicFunctionGroup_add self func opset w =
     (case heap w self of
        None \<Rightarrow> (Inl InvalidReference, w)
      | Some g \<Rightarrow>
          let w1 = (if OverrideDict_in_base opset (grp_functions g)
                    then w\<lparr>warnings := warnings w @ [OnnxExporterWarning (grp_name g) opset]\<rparr>
                    else w);
              g' = g\<lparr>grp_functions := OverrideDict_setitem opset func (grp_functions g)\<rparr>
          in (Inr (), w1\<lparr>heap := (heap w1)(self \<mapsto> g'), get_cache := Map.empty\<rparr>))"

definition SymbolicFunctionGroup_add_custom ::
  "nat \<Rightarrow> 'h \<Rightarrow> OpsetVersion \<Rightarrow> 'h world \<Rightarrow> (OpsetVersion error + unit) \<times> 'h world" where
  "SymbolicFunctionGroup_add_custom self func opset w =
     (case heap w self of
        None \<Rightarrow> (Inl InvalidReference, w)
      | Some g \<Rightarrow>
          let g' = g\<lparr>grp_functions := OverrideDict_override opset func (grp_functions g)\<rparr>
          in (Inr (), w\<lparr>heap := (heap w)(self \<mapsto> g'), get_cache := Map.empty\<rparr>))"

definition SymbolicFunctionGroup_remove_custom ::
  "nat \<Rightarrow> OpsetVersion \<Rightarrow> 'h world \<Rightarrow> (OpsetVersion error + unit) \<times> 'h world" where
  "SymbolicFunctionGroup_remove_custom self opset w =
     (case heap w self of
        None \<Rightarrow> (Inl InvalidReference, w)
      | Some g \<Rightarrow>
          if \<not> OverrideDict_overridden opset (grp_functions g)
          then (Inr (), w\<lparr>warnings := warnings w @ [UserWarning (grp_name g) opset]\<rparr>)
          else
            let g' = g\<lparr>grp_functions := OverrideDict_remove_override opset (grp_functions g)\<rparr>
            in (Inr (), w\<lparr>heap := (heap w)(self \<mapsto> g'), get_cache := Map.empty\<rparr>))"

text \<open>Python's \<open>min\<close> of an iterable raises \<open>ValueError\<close> when there is nothing to iterate.\<close>

definition py_min :: "int list \<Rightarrow> OpsetVersion error + int" where
  "py_min xs = (case xs of [] \<Rightarrow> Inl ValueError | x # rest \<Rightarrow> Inr (fold min rest x))"

definition SymbolicFunctionGroup_get_min_supported ::
  "nat \<Rightarrow> 'h world \<Rightarrow> (OpsetVersion error + OpsetVersion) \<times> 'h world" where
  "SymbolicFunctionGroup_get_min_supported self w =
     (case heap w self of
        None \<Rightarrow> (Inl InvalidReference, w)
      | Some g \<Rightarrow> (py_min (OverrideDict_iter (grp_functions g)), w))"

subsection \<open>\<open>SymbolicRegistry\<close>\<close>

text \<open>
  The field \<open>_registry\<close>: a dictionary from qualified names to references to groups.
  A method of the registry takes the registry and the world and returns both.
\<close>

type_synonym SymbolicRegistry = "(string, nat) dict"

definition SymbolicRegistry_init :: SymbolicRegistry where
  "SymbolicRegistry_init = []"

text \<open>\<open>sub in s\<close> on strings: \<open>sub\<close> occurs in \<open>s\<close> as a contiguous run.\<close>

fun str_contains :: "string \<Rightarrow> string \<Rightarrow> bool" where
  "str_contains sub [] = (sub = [])"
| "str_contains sub (c # cs) = (take (length sub) (c # cs) = sub \<or> str_contains sub cs)"

definition dict_setdefault :: "'k \<Rightarrow> 'v \<Rightarrow> ('k, 'v) dict \<Rightarrow> 'v \<times> ('k, 'v) dict" where
  "dict_setdefault key dflt d =
     (case map_of d key of Some v \<Rightarrow> (v, d) | None \<Rightarrow> (dflt, AList.update key dflt d))"

text \<open>
  \<open>register\<close> evaluates the argument \<open>_SymbolicFunctionGroup(name)\<close> of \<open>setdefault\<close> on
  every call, so a group is allocated also when the name is already known (it is then
  dropped).
\<close>

definition SymbolicRegistry_register ::
  "SymbolicRegistry \<Rightarrow> string \<Rightarrow> OpsetVersion \<Rightarrow> 'h \<Rightarrow> bool \<Rightarrow> 'h world
     \<Rightarrow> (OpsetVersion error + unit) \<times> SymbolicRegistry \<times> 'h world" where
  "SymbolicRegistry_register reg name opset func custom w =
     (if \<not> str_contains ''::'' name then (Inl ValueError, reg, w)
      else
        let (fresh, w1) = SymbolicFunctionGroup_init name w;
            (symbolic_functions, reg1) = dict_setdefault name fresh reg;
            (r, w2) = (if custom
                       then SymbolicFunctionGroup_add_custom symbolic_functions func opset w1
                       else SymbolicFunctionGroup_add symbolic_functions func opset w1)
        in (r, reg1, w2))"

definition SymbolicRegistry_unregister ::
  "SymbolicRegistry \<Rightarrow> string \<Rightarrow> OpsetVersion \<Rightarrow> 'h world
     \<Rightarrow> (OpsetVersion error + unit) \<times> SymbolicRegistry \<times> 'h world" where
  "SymbolicRegistry_unregister reg name opset w =
     (case map_of reg name of
        None \<Rightarrow> (Inr (), reg, w)
      | Some g \<Rightarrow>
          let (r, w1) = SymbolicFunctionGroup_remove_custom g opset w in (r, reg, w1))"

definition SymbolicRegistry_get_function_group :: "SymbolicRegistry \<Rightarrow> string \<Rightarrow> nat option" where
  "SymbolicRegistry_get_function_group reg name = map_of reg name"

definition SymbolicRegistry_is_registered_op ::
  "SymbolicRegistry \<Rightarrow> string \<Rightarrow> OpsetVersion \<Rightarrow> 'h world \<Rightarrow> (OpsetVersion error + bool) \<times> 'h world" where
  "SymbolicRegistry_is_registered_op reg name version w =
     (case SymbolicRegistry_get_function_group reg name of
        None \<Rightarrow> (Inr False, w)
      | Some functions \<Rightarrow>
          (case SymbolicFunctionGroup_get functions version w of
             (Inl e, w') \<Rightarrow> (Inl e, w')
           | (Inr r, w') \<Rightarrow> (Inr (r \<noteq> None), w')))"

definition SymbolicRegistry_all_functions :: "SymbolicRegistry \<Rightarrow> string set" where
  "SymbolicRegistry_all_functions reg = set (map fst reg)"

subsection \<open>Sequences of calls\<close>

text \<open>
  A call on the \<open>OverrideDict\<close> that changes it, and a call on the groups of a world:
  the constructor, the three writing methods and the two reading ones. Running a call
  keeps the world it leaves behind and drops its outcome, as a caller that catches the
  exception would.
\<close>

datatype ('k, 'v) od_call = SetItem 'k 'v | Override 'k 'v | RemoveOverride 'k

fun od_run :: "('k, 'v) od_call \<Rightarrow> ('k, 'v) OverrideDict \<Rightarrow> ('k, 'v) OverrideDict" where
  "od_run (SetItem k v) d = OverrideDict_setitem k v d"
| "od_run (Override k v) d = OverrideDict_override k v d"
| "od_run (RemoveOverride k) d = OverrideDict_remove_override k d"

datatype 'h call =
    New string
  | Add nat 'h OpsetVersion
  | AddCustom nat 'h OpsetVersion
  | RemoveCustom nat OpsetVersion
  | Get nat OpsetVersion
  | GetItem nat OpsetVersion

fun run :: "'h call \<Rightarrow> 'h world \<Rightarrow> 'h world" where
  "run (New name) w = snd (SymbolicFunctionGroup_init name w)"
| "run (Add self func opset) w = snd (SymbolicFunctionGroup_add self func opset w)"
| "run (AddCustom self func opset) w = snd (SymbolicFunctionGroup_add_custom self func opset w)"
| "run (RemoveCustom self opset) w = snd (SymbolicFunctionGroup_remove_custom self opset w)"
| "run (Get self opset) w = snd (SymbolicFunctionGroup_get self opset w)"
| "run (GetItem self key) w = snd (SymbolicFunctionGroup_getitem self key w)"

subsection \<open>Invariants\<close>

text \<open>
  The invariant the class comment of \<open>OverrideDict\<close> describes: \<open>_merged\<close> is \<open>_base\<close> with
  \<open>_overrides\<close> on top, and each of the three dictionaries holds a key once.
\<close>

definition od_inv :: "('k, 'v) OverrideDict \<Rightarrow> bool" where
  "od_inv d \<longleftrightarrow>
     map_of (od_merged d) = map_of (od_base d) ++ map_of (od_overrides d)
     \<and> distinct (map fst (od_base d))
     \<and> distinct (map fst (od_overrides d))
     \<and> distinct (map fst (od_merged d))"

text \<open>
  The invariant of the world: every entry of the cache is what the body of \<open>get\<close> returns
  now on an allocated group; every group's dictionary is consistent; ids from \<open>next_id\<close>
  on are not allocated.
\<close>

definition world_inv :: "'h world \<Rightarrow> bool" where
  "world_inv w \<longleftrightarrow>
     (\<forall>self opset r. get_cache w (self, opset) = Some r \<longrightarrow>
        (\<exists>g. heap w self = Some g \<and> SymbolicFunctionGroup_get_uncached g opset = Inr r))
     \<and> (\<forall>self g. heap w self = Some g \<longrightarrow> od_inv (grp_functions g))
     \<and> (\<forall>self. next_id w \<le> self \<longrightarrow> heap w self = None)"

text \<open>Every reference the registry holds is to an allocated group.\<close>

definition registry_inv :: "SymbolicRegistry \<Rightarrow> 'h world \<Rightarrow> bool" where
  "registry_inv reg w \<longleftrightarrow> (\<forall>name self. map_of reg name = Some self \<longrightarrow> heap w self \<noteq> None)"

section \<open>Version resolution\<close>

subsection \<open>The first match of a scan over a sorted list\<close>

lemma find_sorted_Min:
  "sorted xs \<Longrightarrow> \<exists>x\<in>set xs. P x \<Longrightarrow> List.find P xs = Some (Min {x \<in> set xs. P x})"
proof (induction xs)
  case Nil
  then show ?case by simp
next
  case (Cons a xs)
  show ?case
  proof (cases "P a")
    case True
    have "Min {x \<in> set (a # xs). P x} = a"
    proof (rule Min_eqI)
      show "finite {x \<in> set (a # xs). P x}" by simp
      show "a \<in> {x \<in> set (a # xs). P x}" using True by simp
      fix y assume "y \<in> {x \<in> set (a # xs). P x}"
      then show "a \<le> y" using Cons.prems(1) by auto
    qed
    with True show ?thesis by simp
  next
    case False
    then have eq: "{x \<in> set (a # xs). P x} = {x \<in> set xs. P x}" by auto
    from False Cons.prems have ex: "\<exists>x\<in>set xs. P x" by auto
    from Cons.prems have "sorted xs" by simp
    then have "List.find P xs = Some (Min {x \<in> set xs. P x})" using ex by (rule Cons.IH)
    with False eq show ?thesis by simp
  qed
qed

lemma find_rev_sorted_Max:
  "sorted xs \<Longrightarrow> \<exists>x\<in>set xs. P x \<Longrightarrow> List.find P (rev xs) = Some (Max {x \<in> set xs. P x})"
proof (induction xs rule: rev_induct)
  case Nil
  then show ?case by simp
next
  case (snoc a xs)
  show ?case
  proof (cases "P a")
    case True
    have "Max {x \<in> set (xs @ [a]). P x} = a"
    proof (rule Max_eqI)
      show "finite {x \<in> set (xs @ [a]). P x}" by simp
      show "a \<in> {x \<in> set (xs @ [a]). P x}" using True by simp
      fix y assume "y \<in> {x \<in> set (xs @ [a]). P x}"
      then show "y \<le> a" using snoc.prems(1) by (auto simp: sorted_append)
    qed
    with True show ?thesis by simp
  next
    case False
    then have eq: "{x \<in> set (xs @ [a]). P x} = {x \<in> set xs. P x}" by auto
    from False snoc.prems have ex: "\<exists>x\<in>set xs. P x" by auto
    from snoc.prems have "sorted xs" by (simp add: sorted_append)
    then have "List.find P (rev xs) = Some (Max {x \<in> set xs. P x})" using ex by (rule snoc.IH)
    with False eq show ?thesis by simp
  qed
qed

lemma dispatch_first_scan:
  assumes "\<exists>v\<in>set available. ONNX_BASE_OPSET \<le> v \<and> v \<le> target"
  shows "dispatch_opset_version target available =
         Inr (Some (Max {v \<in> set available. ONNX_BASE_OPSET \<le> v \<and> v \<le> target}))"
proof -
  from assms have ne: "available \<noteq> []" by auto
  have "List.find (\<lambda>version. ONNX_BASE_OPSET \<le> version \<and> version \<le> target)
          (rev (sort available))
        = Some (Max {v \<in> set (sort available). ONNX_BASE_OPSET \<le> v \<and> v \<le> target})"
    using assms by (intro find_rev_sorted_Max) simp_all
  then show ?thesis using ne by (simp add: dispatch_opset_version_def)
qed

lemma dispatch_second_scan:
  assumes "\<not> (\<exists>v\<in>set available. ONNX_BASE_OPSET \<le> v \<and> v \<le> target)"
    and "\<exists>v\<in>set available. target \<le> v \<and> v \<le> ONNX_BASE_OPSET"
  shows "dispatch_opset_version target available =
         Inr (Some (Min {v \<in> set available. target \<le> v \<and> v \<le> ONNX_BASE_OPSET}))"
proof -
  from assms have ne: "available \<noteq> []" by auto
  have a: "List.find (\<lambda>version. ONNX_BASE_OPSET \<le> version \<and> version \<le> target)
             (rev (sort available)) = None"
    using assms(1) by (simp add: find_None_iff)
  have "List.find (\<lambda>version. target \<le> version \<and> version \<le> ONNX_BASE_OPSET) (sort available)
        = Some (Min {v \<in> set (sort available). target \<le> v \<and> v \<le> ONNX_BASE_OPSET})"
    using assms(2) by (intro find_sorted_Min) simp_all
  then show ?thesis using ne a by (simp add: dispatch_opset_version_def)
qed

subsection \<open>Claims on \<open>_dispatch_opset_version\<close>\<close>

text \<open>
  C1. The claim: whenever the available versions are not empty and none of them lies
  between the base opset and the target, in either direction, the resolution returns
  \<open>None\<close> and does not fail its assertion. The code does not do that: the condition of
  its \<open>assert\<close> leaves out reachable cases. With the single version 10 available and
  the target 8, below the base opset 9, neither scan matches and the assertion fails;
  the same happens for the target 10 with the versions 5 and 12 on both sides of it.
  Through a group, \<open>get(8)\<close> raises \<open>AssertionError\<close> once a handler is registered at
  opset 10 only.
\<close>

theorem dispatch_opset_version_assertion_fails:
  "dispatch_opset_version 8 [10] = Inl AssertionError
   \<and> dispatch_opset_version 10 [5, 12] = Inl AssertionError
   \<and> fst (SymbolicFunctionGroup_get 0 8
            (fold run [New ''aten::foo'', Add 0 h 10] init_world)) = Inl AssertionError"
  by (simp add: dispatch_opset_version_def ONNX_BASE_OPSET_def
      SymbolicFunctionGroup_get_def SymbolicFunctionGroup_get_uncached_def
      SymbolicFunctionGroup_init_def SymbolicFunctionGroup_add_def init_world_def
      OverrideDict_init_def OverrideDict_setitem_def OverrideDict_in_base_def
      OverrideDict_iter_def dict_merge_def Let_def)

text \<open>
  C2. For every target and every non-empty collection of available versions: when some
  version lies between the base opset and the target, the resolution returns the
  greatest such version; otherwise, when some version lies between the target and the
  base opset, it returns the least such version. With the versions 9, 11 and 13
  (and the base opset 9), the targets 12, 10, 8 and 14 resolve to 11, 9, 9 and 13.
\<close>

theorem dispatch_opset_version_nearest:
  "(available \<noteq> [] \<longrightarrow>
      (\<exists>v\<in>set available. ONNX_BASE_OPSET \<le> v \<and> v \<le> target) \<longrightarrow>
      dispatch_opset_version target available =
        Inr (Some (Max {v \<in> set available. ONNX_BASE_OPSET \<le> v \<and> v \<le> target})))
   \<and> (available \<noteq> [] \<longrightarrow>
      \<not> (\<exists>v\<in>set available. ONNX_BASE_OPSET \<le> v \<and> v \<le> target) \<longrightarrow>
      (\<exists>v\<in>set available. target \<le> v \<and> v \<le> ONNX_BASE_OPSET) \<longrightarrow>
      dispatch_opset_version target available =
        Inr (Some (Min {v \<in> set available. target \<le> v \<and> v \<le> ONNX_BASE_OPSET})))
   \<and> dispatch_opset_version 12 [9, 11, 13] = Inr (Some 11)
   \<and> dispatch_opset_version 10 [9, 11, 13] = Inr (Some 9)
   \<and> dispatch_opset_version 8 [9, 11, 13] = Inr (Some 9)
   \<and> dispatch_opset_version 14 [9, 11, 13] = Inr (Some 13)"
proof -
  have general: "(\<exists>v\<in>set available. ONNX_BASE_OPSET \<le> v \<and> v \<le> target) \<longrightarrow>
      dispatch_opset_version target available =
        Inr (Some (Max {v \<in> set available. ONNX_BASE_OPSET \<le> v \<and> v \<le> target}))"
    "\<not> (\<exists>v\<in>set available. ONNX_BASE_OPSET \<le> v \<and> v \<le> target) \<longrightarrow>
      (\<exists>v\<in>set available. target \<le> v \<and> v \<le> ONNX_BASE_OPSET) \<longrightarrow>
      dispatch_opset_version target available =
        Inr (Some (Min {v \<in> set available. target \<le> v \<and> v \<le> ONNX_BASE_OPSET}))"
    using dispatch_first_scan dispatch_second_scan by blast+
  have examples: "dispatch_opset_version 12 [9, 11, 13] = Inr (Some 11)"
    "dispatch_opset_version 10 [9, 11, 13] = Inr (Some 9)"
    "dispatch_opset_version 8 [9, 11, 13] = Inr (Some 9)"
    "dispatch_opset_version 14 [9, 11, 13] = Inr (Some 13)"
    by (simp_all add: dispatch_opset_version_def ONNX_BASE_OPSET_def)
  from general examples show ?thesis by simp
qed

theorem dispatch_opset_version_nearest_witness:
  "[7, 16, 10, 14] \<noteq> ([] :: int list)
   \<and> (\<exists>v\<in>set [7, 16, 10, 14]. ONNX_BASE_OPSET \<le> v \<and> v \<le> 15)
   \<and> dispatch_opset_version 15 [7, 16, 10, 14] = Inr (Some 14)
   \<and> Max {v \<in> set [7, 16, 10, 14]. ONNX_BASE_OPSET \<le> v \<and> v \<le> 15} = 14
   \<and> [12, 8, 7] \<noteq> ([] :: int list)
   \<and> \<not> (\<exists>v\<in>set [12, 8, 7]. ONNX_BASE_OPSET \<le> v \<and> v \<le> 6)
   \<and> (\<exists>v\<in>set [12, 8, 7]. 6 \<le> v \<and> v \<le> ONNX_BASE_OPSET)
   \<and> dispatch_opset_version 6 [12, 8, 7] = Inr (Some 7)
   \<and> Min {v \<in> set [12, 8, 7]. 6 \<le> v \<and> v \<le> ONNX_BASE_OPSET} = 7"
proof -
  have up: "\<exists>v\<in>set [7, 16, 10, 14]. ONNX_BASE_OPSET \<le> v \<and> v \<le> 15"
    by (simp add: ONNX_BASE_OPSET_def)
  have down: "\<not> (\<exists>v\<in>set [12, 8, 7]. ONNX_BASE_OPSET \<le> v \<and> v \<le> 6)"
    "\<exists>v\<in>set [12, 8, 7]. 6 \<le> v \<and> v \<le> ONNX_BASE_OPSET"
    by (simp_all add: ONNX_BASE_OPSET_def)
  have run: "dispatch_opset_version 15 [7, 16, 10, 14] = Inr (Some 14)"
    "dispatch_opset_version 6 [12, 8, 7] = Inr (Some 7)"
    by (simp_all add: dispatch_opset_version_def ONNX_BASE_OPSET_def)
  from up down run
    dispatch_opset_version_nearest [of "[7, 16, 10, 14]" 15]
    dispatch_opset_version_nearest [of "[12, 8, 7]" 6]
  show ?thesis by simp
qed

section \<open>The override dictionary\<close>

subsection \<open>Merging and the invariant\<close>

lemma map_of_rev_distinct:
  "distinct (map fst b) \<Longrightarrow> map_of (rev b) = map_of b"
  by (rule map_of_inject_set[THEN iffD2]) (simp_all add: rev_map[symmetric])

lemma map_of_dict_merge_rev:
  "map_of (dict_merge a b) = map_of a ++ map_of (rev b)"
  unfolding dict_merge_def
proof (induction b arbitrary: a)
  case Nil
  then show ?case by simp
next
  case (Cons p b)
  obtain k v where p: "p = (k, v)" by (cases p)
  have "map_of (fold (\<lambda>(k, v). AList.update k v) b (AList.update k v a))
        = map_of (AList.update k v a) ++ map_of (rev b)" by (rule Cons.IH)
  also have "\<dots> = map_of a ++ (map_of [(k, v)] ++ map_of (rev b))"
    by (rule ext) (simp add: update_conv' map_add_def split: option.split)
  finally show ?case by (simp add: p)
qed

lemma map_of_dict_merge:
  "distinct (map fst b) \<Longrightarrow> map_of (dict_merge a b) = map_of a ++ map_of b"
  by (simp add: map_of_dict_merge_rev map_of_rev_distinct)

lemma distinct_dict_merge:
  "distinct (map fst a) \<Longrightarrow> distinct (map fst (dict_merge a b))"
  unfolding dict_merge_def
  by (induction b arbitrary: a) (auto simp: distinct_update)

lemma od_inv_init: "od_inv OverrideDict_init"
  by (simp add: od_inv_def OverrideDict_init_def)

lemma od_inv_setitem: "od_inv d \<Longrightarrow> od_inv (OverrideDict_setitem k v d)"
  by (simp add: od_inv_def OverrideDict_setitem_def Let_def map_of_dict_merge
      distinct_dict_merge distinct_update)

lemma od_inv_override: "od_inv d \<Longrightarrow> od_inv (OverrideDict_override k v d)"
  by (simp add: od_inv_def OverrideDict_override_def update_conv' distinct_update)

lemma od_inv_remove_override: "od_inv d \<Longrightarrow> od_inv (OverrideDict_remove_override k d)"
  by (simp add: od_inv_def OverrideDict_remove_override_def Let_def map_of_dict_merge
      distinct_dict_merge distinct_delete)

lemma od_inv_run: "od_inv d \<Longrightarrow> od_inv (od_run c d)"
  by (cases c) (simp_all add: od_inv_setitem od_inv_override od_inv_remove_override)

lemma od_inv_fold_run: "od_inv d \<Longrightarrow> od_inv (fold od_run cs d)"
  by (induction cs arbitrary: d) (simp_all add: od_inv_run)

section \<open>Groups, the cache and the registry\<close>

subsection \<open>Resolution inside a group\<close>

lemma find_Some_set: "List.find P xs = Some v \<Longrightarrow> v \<in> set xs"
  by (induction xs) (auto split: if_splits)

lemma dispatch_in_set:
  assumes "dispatch_opset_version target available = Inr (Some v)"
  shows "v \<in> set available"
proof -
  let ?up = "List.find (\<lambda>version. ONNX_BASE_OPSET \<le> version \<and> version \<le> target)
               (rev (sort available))"
  let ?down = "List.find (\<lambda>version. target \<le> version \<and> version \<le> ONNX_BASE_OPSET)
                 (sort available)"
  from assms have "?up = Some v \<or> ?down = Some v"
    by (simp add: dispatch_opset_version_def Let_def split: if_splits option.splits)
  then have "v \<in> set (rev (sort available)) \<or> v \<in> set (sort available)"
    by (blast dest: find_Some_set)
  then show ?thesis by simp
qed

lemma world_inv_cacheD:
  "world_inv w \<Longrightarrow> get_cache w (self, opset) = Some r \<Longrightarrow>
   \<exists>g. heap w self = Some g \<and> SymbolicFunctionGroup_get_uncached g opset = Inr r"
  unfolding world_inv_def by blast

lemma world_inv_groupD:
  "world_inv w \<Longrightarrow> heap w self = Some g \<Longrightarrow> od_inv (grp_functions g)"
  unfolding world_inv_def by blast

lemma world_inv_freshD:
  "world_inv w \<Longrightarrow> next_id w \<le> self \<Longrightarrow> heap w self = None"
  unfolding world_inv_def by blast

lemma dispatch_error:
  "dispatch_opset_version target available = Inl e \<Longrightarrow> e = AssertionError"
  by (auto simp: dispatch_opset_version_def Let_def split: if_splits option.splits)

lemma dispatch_member:
  assumes "target \<in> set available"
  shows "dispatch_opset_version target available = Inr (Some target)"
proof (cases "ONNX_BASE_OPSET \<le> target")
  case True
  have "Max {v \<in> set available. ONNX_BASE_OPSET \<le> v \<and> v \<le> target} = target"
    using assms True by (intro Max_eqI) auto
  moreover have "\<exists>v\<in>set available. ONNX_BASE_OPSET \<le> v \<and> v \<le> target"
    using assms True by auto
  ultimately show ?thesis using dispatch_first_scan by simp
next
  case False
  then have no: "\<not> (\<exists>v\<in>set available. ONNX_BASE_OPSET \<le> v \<and> v \<le> target)" by auto
  have "Min {v \<in> set available. target \<le> v \<and> v \<le> ONNX_BASE_OPSET} = target"
    using assms False by (intro Min_eqI) auto
  moreover have "\<exists>v\<in>set available. target \<le> v \<and> v \<le> ONNX_BASE_OPSET"
    using assms False by auto
  ultimately show ?thesis using dispatch_second_scan [OF no] by simp
qed

lemma get_uncached_error:
  "SymbolicFunctionGroup_get_uncached g opset = Inl e \<Longrightarrow> e = AssertionError"
proof -
  assume a: "SymbolicFunctionGroup_get_uncached g opset = Inl e"
  show ?thesis
  proof (cases "dispatch_opset_version opset (OverrideDict_iter (grp_functions g))")
    case (Inl e')
    with a show ?thesis
      by (auto simp: SymbolicFunctionGroup_get_uncached_def dest: dispatch_error)
  next
    case (Inr r)
    show ?thesis
    proof (cases r)
      case None
      with Inr a show ?thesis by (simp add: SymbolicFunctionGroup_get_uncached_def)
    next
      case (Some v)
      with Inr have "v \<in> set (OverrideDict_iter (grp_functions g))"
        by (auto dest: dispatch_in_set)
      then have "map_of (od_merged (grp_functions g)) v \<noteq> None"
        by (simp add: OverrideDict_iter_def map_of_eq_None_iff)
      with Some Inr a show ?thesis
        by (auto simp: SymbolicFunctionGroup_get_uncached_def OverrideDict_getitem_def)
    qed
  qed
qed

lemma get_uncached_member:
  assumes "map_of (od_merged (grp_functions g)) version = Some h"
  shows "SymbolicFunctionGroup_get_uncached g version = Inr (Some h)"
proof -
  from assms have "version \<in> set (OverrideDict_iter (grp_functions g))"
    by (auto simp: OverrideDict_iter_def dest: map_of_SomeD intro: rev_image_eqI)
  then have "dispatch_opset_version version (OverrideDict_iter (grp_functions g)) = Inr (Some version)"
    by (rule dispatch_member)
  with assms show ?thesis
    by (simp add: SymbolicFunctionGroup_get_uncached_def OverrideDict_getitem_def)
qed

lemma get_coherent:
  assumes "world_inv w" and "heap w self = Some g"
  shows "fst (SymbolicFunctionGroup_get self opset w) = SymbolicFunctionGroup_get_uncached g opset"
proof (cases "get_cache w (self, opset)")
  case None
  with assms(2) show ?thesis
    by (simp add: SymbolicFunctionGroup_get_def split: sum.split)
next
  case (Some r)
  with assms have "SymbolicFunctionGroup_get_uncached g opset = Inr r"
    by (auto dest: world_inv_cacheD)
  with Some show ?thesis by (simp add: SymbolicFunctionGroup_get_def)
qed

lemma world_inv_init_world: "world_inv init_world"
  by (simp add: world_inv_def init_world_def)

lemma world_inv_init:
  assumes "world_inv w"
  shows "world_inv (snd (SymbolicFunctionGroup_init name w))"
  unfolding world_inv_def
proof (intro conjI allI impI)
  let ?w = "snd (SymbolicFunctionGroup_init name w)"
  fix self opset r
  assume c: "get_cache ?w (self, opset) = Some r"
  then have "get_cache w (self, opset) = Some r" by (simp add: SymbolicFunctionGroup_init_def)
  with assms obtain g where g: "heap w self = Some g" "SymbolicFunctionGroup_get_uncached g opset = Inr r"
    by (blast dest: world_inv_cacheD)
  with assms have "self \<noteq> next_id w" by (auto dest: world_inv_freshD)
  with g show "\<exists>g. heap ?w self = Some g \<and> SymbolicFunctionGroup_get_uncached g opset = Inr r"
    by (simp add: SymbolicFunctionGroup_init_def)
next
  let ?w = "snd (SymbolicFunctionGroup_init name w)"
  fix self g
  assume "heap ?w self = Some g"
  with assms show "od_inv (grp_functions g)"
    by (auto simp: SymbolicFunctionGroup_init_def world_inv_def od_inv_init split: if_splits)
next
  let ?w = "snd (SymbolicFunctionGroup_init name w)"
  fix self
  assume "next_id ?w \<le> self"
  with assms show "heap ?w self = None"
    by (auto simp: SymbolicFunctionGroup_init_def world_inv_def)
qed

text \<open>A write: the group at self replaced by one with a consistent dictionary, the cache emptied.\<close>

lemma world_inv_write:
  assumes "world_inv w" and "heap w self = Some g" and "od_inv (grp_functions g')"
  shows "world_inv (w\<lparr>heap := (heap w)(self \<mapsto> g'), get_cache := Map.empty\<rparr>)"
  using assms by (auto simp: world_inv_def)

lemma world_inv_warn:
  "world_inv (w\<lparr>warnings := ws\<rparr>) = world_inv w"
  by (simp add: world_inv_def)

lemma world_inv_add:
  assumes "world_inv w"
  shows "world_inv (snd (SymbolicFunctionGroup_add self func opset w))"
proof (cases "heap w self")
  case None
  with assms show ?thesis by (simp add: SymbolicFunctionGroup_add_def)
next
  case (Some g)
  with assms have "od_inv (grp_functions g)" by (auto simp: world_inv_def)
  then have "od_inv (OverrideDict_setitem opset func (grp_functions g))" by (rule od_inv_setitem)
  with assms Some show ?thesis
    by (auto simp: SymbolicFunctionGroup_add_def Let_def world_inv_def)
qed

lemma world_inv_add_custom:
  assumes "world_inv w"
  shows "world_inv (snd (SymbolicFunctionGroup_add_custom self func opset w))"
proof (cases "heap w self")
  case None
  with assms show ?thesis by (simp add: SymbolicFunctionGroup_add_custom_def)
next
  case (Some g)
  with assms have "od_inv (grp_functions g)" by (auto simp: world_inv_def)
  then have "od_inv (OverrideDict_override opset func (grp_functions g))" by (rule od_inv_override)
  with assms Some show ?thesis
    by (auto simp: SymbolicFunctionGroup_add_custom_def Let_def world_inv_def)
qed

lemma world_inv_remove_custom:
  assumes "world_inv w"
  shows "world_inv (snd (SymbolicFunctionGroup_remove_custom self opset w))"
proof (cases "heap w self")
  case None
  with assms show ?thesis by (simp add: SymbolicFunctionGroup_remove_custom_def)
next
  case (Some g)
  with assms have "od_inv (grp_functions g)" by (auto simp: world_inv_def)
  then have "od_inv (OverrideDict_remove_override opset (grp_functions g))"
    by (rule od_inv_remove_override)
  with assms Some show ?thesis
    by (auto simp: SymbolicFunctionGroup_remove_custom_def Let_def world_inv_def)
qed

lemma world_inv_get:
  assumes "world_inv w"
  shows "world_inv (snd (SymbolicFunctionGroup_get self opset w))"
  using assms
  by (auto simp: SymbolicFunctionGroup_get_def world_inv_def split: option.splits sum.splits)

lemma snd_getitem:
  "snd (SymbolicFunctionGroup_getitem self key w) = snd (SymbolicFunctionGroup_get self key w)"
  by (simp add: SymbolicFunctionGroup_getitem_def split: prod.split sum.split option.split)

lemma world_inv_run: "world_inv w \<Longrightarrow> world_inv (run c w)"
  by (cases c)
    (simp_all add: world_inv_init world_inv_add world_inv_add_custom world_inv_remove_custom
      world_inv_get snd_getitem)

lemma world_inv_fold_run: "world_inv w \<Longrightarrow> world_inv (fold run cs w)"
  by (induction cs arbitrary: w) (simp_all add: world_inv_run)

lemmas group_defs =
  SymbolicFunctionGroup_get_def SymbolicFunctionGroup_get_uncached_def
  SymbolicFunctionGroup_getitem_def
  SymbolicFunctionGroup_init_def SymbolicFunctionGroup_add_def
  SymbolicFunctionGroup_add_custom_def SymbolicFunctionGroup_remove_custom_def
  SymbolicFunctionGroup_get_min_supported_def py_min_def
  init_world_def OverrideDict_init_def OverrideDict_setitem_def OverrideDict_override_def
  OverrideDict_remove_override_def OverrideDict_in_base_def OverrideDict_overridden_def
  OverrideDict_iter_def OverrideDict_getitem_def dict_merge_def
  dispatch_opset_version_def ONNX_BASE_OPSET_def Let_def

subsection \<open>Claims on the cache\<close>

text \<open>
  C3. After any sequence of constructor calls, \<open>add\<close>, \<open>add_custom\<close>, \<open>remove_custom\<close>,
  \<open>get\<close> and subscript reads, on any groups, \<open>get\<close> on a group returns what the
  resolution, run now on the functions the group holds now, returns: the cache never
  answers with a result computed before a write.
\<close>

theorem get_reflects_current_state:
  "heap (fold run calls init_world) self = Some g \<Longrightarrow>
   fst (SymbolicFunctionGroup_get self opset (fold run calls init_world))
     = SymbolicFunctionGroup_get_uncached g opset"
  using get_coherent [of "fold run calls init_world" self g opset]
    world_inv_fold_run [OF world_inv_init_world, of calls]
  by simp

theorem get_reflects_current_state_witness:
  "heap (fold run [New ''aten::foo'', Add 0 ''v9'' 9, Get 0 12, AddCustom 0 ''custom12'' 12]
           init_world) 0
     = Some \<lparr>grp_name = ''aten::foo'',
             grp_functions = \<lparr>od_base = [(9, ''v9'')], od_overrides = [(12, ''custom12'')],
                              od_merged = [(9, ''v9''), (12, ''custom12'')]\<rparr>\<rparr>
   \<and> get_cache (fold run [New ''aten::foo'', Add 0 ''v9'' 9, Get 0 12] init_world) (0, 12)
       = Some (Some ''v9'')
   \<and> fst (SymbolicFunctionGroup_get 0 12
        (fold run [New ''aten::foo'', Add 0 ''v9'' 9, Get 0 12, AddCustom 0 ''custom12'' 12]
           init_world)) = Inr (Some ''custom12'')"
proof -
  let ?calls = "[New ''aten::foo'', Add 0 ''v9'' 9, Get 0 12, AddCustom 0 ''custom12'' 12]"
  let ?g = "\<lparr>grp_name = ''aten::foo'',
             grp_functions = \<lparr>od_base = [(9::int, ''v9'')], od_overrides = [(12, ''custom12'')],
                              od_merged = [(9, ''v9''), (12, ''custom12'')]\<rparr>\<rparr>"
  have h: "heap (fold run ?calls init_world) 0 = Some ?g"
    by (simp add: group_defs)
  have c: "get_cache (fold run [New ''aten::foo'', Add 0 ''v9'' 9, Get 0 12] init_world) (0, 12)
       = Some (Some ''v9'')"
    by (simp add: group_defs)
  have u: "SymbolicFunctionGroup_get_uncached ?g 12 = Inr (Some ''custom12'')"
    by (simp add: group_defs)
  from h c u get_reflects_current_state [of ?calls 0 ?g 12] show ?thesis by simp
qed

lemma get_not_KeyError:
  "fst (SymbolicFunctionGroup_get self opset w) \<noteq> Inl (KeyError k)"
  by (auto simp: SymbolicFunctionGroup_get_def split: option.splits sum.splits
      dest: get_uncached_error)

text \<open>
  C10. The subscript read \<open>group[version]\<close> raises \<open>KeyError\<close> exactly when \<open>get(version)\<close>
  returns \<open>None\<close>, and the key of the error is the version asked for; it returns a handler
  exactly when \<open>get(version)\<close> returns that handler.
\<close>

theorem getitem_raises_iff_get_absent:
  "((\<exists>k. fst (SymbolicFunctionGroup_getitem self version w) = Inl (KeyError k))
      \<longleftrightarrow> fst (SymbolicFunctionGroup_get self version w) = Inr None)
   \<and> (fst (SymbolicFunctionGroup_get self version w) = Inr None
      \<longrightarrow> fst (SymbolicFunctionGroup_getitem self version w) = Inl (KeyError version))
   \<and> (\<forall>h. fst (SymbolicFunctionGroup_getitem self version w) = Inr h
      \<longleftrightarrow> fst (SymbolicFunctionGroup_get self version w) = Inr (Some h))"
proof -
  obtain r w' where g: "SymbolicFunctionGroup_get self version w = (r, w')"
    by (cases "SymbolicFunctionGroup_get self version w")
  with get_not_KeyError [of self version w] have nk: "\<And>k. r \<noteq> Inl (KeyError k)" by simp
  show ?thesis
  proof (cases r)
    case (Inl e)
    with g nk show ?thesis by (auto simp: SymbolicFunctionGroup_getitem_def)
  next
    case (Inr x)
    with g show ?thesis by (cases x) (auto simp: SymbolicFunctionGroup_getitem_def)
  qed
qed

theorem getitem_raises_iff_get_absent_witness:
  "fst (SymbolicFunctionGroup_get 0 9 (fold run [New ''aten::foo''] init_world))
      = (Inr None :: int error + string option)
   \<and> fst (SymbolicFunctionGroup_getitem 0 9 (fold run [New ''aten::foo''] init_world))
      = (Inl (KeyError 9) :: int error + string)
   \<and> fst (SymbolicFunctionGroup_get 0 12
        (fold run [New ''aten::foo'', Add 0 ''v9'' 9] init_world)) = Inr (Some ''v9'')
   \<and> fst (SymbolicFunctionGroup_getitem 0 12
        (fold run [New ''aten::foo'', Add 0 ''v9'' 9] init_world)) = Inr ''v9''"
proof -
  have a: "fst (SymbolicFunctionGroup_get 0 9 (fold run [New ''aten::foo''] init_world))
      = (Inr None :: int error + string option)"
    by (simp add: group_defs)
  have b: "fst (SymbolicFunctionGroup_get 0 12
        (fold run [New ''aten::foo'', Add 0 ''v9'' 9] init_world)) = Inr (Some ''v9'')"
    by (simp add: group_defs)
  from a b
    getitem_raises_iff_get_absent [of 0 9 "fold run [New ''aten::foo''] init_world :: string world"]
    getitem_raises_iff_get_absent [of 0 12 "fold run [New ''aten::foo'', Add 0 ''v9'' 9] init_world"]
  show ?thesis by simp
qed

lemma str_contains_iff: "str_contains sub s \<longleftrightarrow> (\<exists>p q. s = p @ sub @ q)"
proof (induction s)
  case Nil
  then show ?case by auto
next
  case (Cons c cs)
  have "(take (length sub) (c # cs) = sub) \<longleftrightarrow> (\<exists>q. c # cs = sub @ q)"
  proof
    assume "take (length sub) (c # cs) = sub"
    then have "c # cs = sub @ drop (length sub) (c # cs)"
      by (metis append_take_drop_id)
    then show "\<exists>q. c # cs = sub @ q" ..
  next
    assume "\<exists>q. c # cs = sub @ q"
    then show "take (length sub) (c # cs) = sub" by auto
  qed
  moreover have "(\<exists>p q. c # cs = p @ sub @ q)
      \<longleftrightarrow> (\<exists>q. c # cs = sub @ q) \<or> (\<exists>p q. cs = p @ sub @ q)"
  proof
    assume "\<exists>p q. c # cs = p @ sub @ q"
    then obtain p q where pq: "c # cs = p @ sub @ q" by blast
    show "(\<exists>q. c # cs = sub @ q) \<or> (\<exists>p q. cs = p @ sub @ q)"
    proof (cases p)
      case Nil
      with pq show ?thesis by auto
    next
      case (Cons a p')
      with pq have "cs = p' @ sub @ q" by simp
      then show ?thesis by blast
    qed
  next
    assume "(\<exists>q. c # cs = sub @ q) \<or> (\<exists>p q. cs = p @ sub @ q)"
    then show "\<exists>p q. c # cs = p @ sub @ q"
    proof
      assume "\<exists>q. c # cs = sub @ q"
      then obtain q where "c # cs = [] @ sub @ q" by auto
      then show ?thesis by blast
    next
      assume "\<exists>p q. cs = p @ sub @ q"
      then obtain p q where "c # cs = (c # p) @ sub @ q" by auto
      then show ?thesis by blast
    qed
  qed
  ultimately show ?case using Cons.IH by simp
qed

subsection \<open>Claims on the registry and the groups\<close>

text \<open>
  C5. For a name in which \<open>::\<close> does not occur, \<open>register\<close> raises \<open>ValueError\<close> whatever
  the version, the handler and the flag are, and leaves the registry and the world as
  they were: no group is allocated and the set of registered names is the same.
\<close>

theorem register_invalid_name:
  "\<not> (\<exists>p q. name = p @ ''::'' @ q) \<Longrightarrow>
   SymbolicRegistry_register reg name opset func custom w = (Inl ValueError, reg, w)
   \<and> SymbolicRegistry_all_functions
         (fst (snd (SymbolicRegistry_register reg name opset func custom w)))
       = SymbolicRegistry_all_functions reg"
  by (simp add: SymbolicRegistry_register_def str_contains_iff)

theorem register_invalid_name_witness:
  "\<not> (\<exists>p q. ''badname'' = p @ ''::'' @ q)
   \<and> SymbolicRegistry_register [(''aten::foo'', 0)] ''badname'' 9 ''h'' False
        (fold run [New ''aten::foo'', Add 0 ''v9'' 9] init_world)
      = (Inl ValueError, [(''aten::foo'', 0)],
         fold run [New ''aten::foo'', Add 0 ''v9'' 9] init_world)
   \<and> SymbolicRegistry_register [] ''bad:name'' 9 ''h'' True (init_world :: string world)
      = (Inl ValueError, [], init_world)"
proof -
  have a: "\<not> (\<exists>p q. ''badname'' = p @ ''::'' @ q)"
    unfolding str_contains_iff [symmetric] by simp
  have b: "\<not> (\<exists>p q. ''bad:name'' = p @ ''::'' @ q)"
    unfolding str_contains_iff [symmetric] by simp
  from a
    register_invalid_name [OF a, of "[(''aten::foo'', 0)]" 9 "''h''" False
      "fold run [New ''aten::foo'', Add 0 ''v9'' 9] init_world"]
    register_invalid_name [OF b, of "[]" 9 "''h''" True "init_world :: string world"]
  show ?thesis by simp
qed

text \<open>
  C8. On a version that is not overridden, \<open>remove_custom\<close> returns normally and changes
  nothing but the log of warnings, which gains one warning. Hence a second
  \<open>remove_custom\<close> of the same version, right after a first one, returns normally and
  leaves every group and the cache as they were.
\<close>

theorem remove_custom_not_overridden:
  "heap w self = Some g \<Longrightarrow>
   (\<not> OverrideDict_overridden version (grp_functions g) \<longrightarrow>
      SymbolicFunctionGroup_remove_custom self version w
        = (Inr (), w\<lparr>warnings := warnings w @ [UserWarning (grp_name g) version]\<rparr>))
   \<and> (let w1 = snd (SymbolicFunctionGroup_remove_custom self version w)
      in SymbolicFunctionGroup_remove_custom self version w1
           = (Inr (), w1\<lparr>warnings := warnings w1 @ [UserWarning (grp_name g) version]\<rparr>))"
proof (cases "OverrideDict_overridden version (grp_functions g)")
  case False
  assume "heap w self = Some g"
  with False show ?thesis
    by (simp add: SymbolicFunctionGroup_remove_custom_def)
next
  case True
  assume h: "heap w self = Some g"
  have "\<not> OverrideDict_overridden version
            (OverrideDict_remove_override version (grp_functions g))"
    by (simp add: OverrideDict_overridden_def OverrideDict_remove_override_def Let_def
        delete_conv')
  with True h show ?thesis
    by (simp add: SymbolicFunctionGroup_remove_custom_def Let_def)
qed

theorem remove_custom_not_overridden_witness:
  "heap (fold run [New ''aten::foo'', Add 0 ''v9'' 9, AddCustom 0 ''c9'' 9] init_world) 0
     = Some \<lparr>grp_name = ''aten::foo'',
             grp_functions = \<lparr>od_base = [(9, ''v9'')], od_overrides = [(9, ''c9'')],
                              od_merged = [(9, ''c9'')]\<rparr>\<rparr>
   \<and> \<not> OverrideDict_overridden 12
         \<lparr>od_base = [(9::int, ''v9'')], od_overrides = [(9, ''c9'')], od_merged = [(9, ''c9'')]\<rparr>
   \<and> SymbolicFunctionGroup_remove_custom 0 12
        (fold run [New ''aten::foo'', Add 0 ''v9'' 9, AddCustom 0 ''c9'' 9] init_world)
       = (Inr (),
          (fold run [New ''aten::foo'', Add 0 ''v9'' 9, AddCustom 0 ''c9'' 9] init_world)
            \<lparr>warnings := [UserWarning ''aten::foo'' 12]\<rparr>)
   \<and> SymbolicFunctionGroup_remove_custom 0 9
        (snd (SymbolicFunctionGroup_remove_custom 0 9
          (fold run [New ''aten::foo'', Add 0 ''v9'' 9, AddCustom 0 ''c9'' 9] init_world)))
       = (Inr (),
          (snd (SymbolicFunctionGroup_remove_custom 0 9
            (fold run [New ''aten::foo'', Add 0 ''v9'' 9, AddCustom 0 ''c9'' 9] init_world)))
            \<lparr>warnings := [UserWarning ''aten::foo'' 9]\<rparr>)"
proof -
  let ?w = "fold run [New ''aten::foo'', Add 0 ''v9'' 9, AddCustom 0 ''c9'' 9]
              (init_world :: string world)"
  let ?g = "\<lparr>grp_name = ''aten::foo'',
             grp_functions = \<lparr>od_base = [(9::int, ''v9'')], od_overrides = [(9, ''c9'')],
                              od_merged = [(9, ''c9'')]\<rparr>\<rparr>"
  have h: "heap ?w 0 = Some ?g"
    by (simp add: group_defs)
  have n: "\<not> OverrideDict_overridden 12 (grp_functions ?g)"
    by (simp add: OverrideDict_overridden_def)
  have ws: "warnings ?w = []"
    by (simp add: group_defs)
  have ws1: "warnings (snd (SymbolicFunctionGroup_remove_custom 0 9 ?w)) = []"
    by (simp add: group_defs)
  from n remove_custom_not_overridden [OF h, of 12]
  have a: "SymbolicFunctionGroup_remove_custom 0 12 ?w
       = (Inr (), ?w\<lparr>warnings := warnings ?w @ [UserWarning ''aten::foo'' 12]\<rparr>)"
    by simp
  from remove_custom_not_overridden [OF h, of 9]
  have b: "SymbolicFunctionGroup_remove_custom 0 9
             (snd (SymbolicFunctionGroup_remove_custom 0 9 ?w))
       = (Inr (), (snd (SymbolicFunctionGroup_remove_custom 0 9 ?w))
            \<lparr>warnings := warnings (snd (SymbolicFunctionGroup_remove_custom 0 9 ?w))
                           @ [UserWarning ''aten::foo'' 9]\<rparr>)"
    by (simp add: Let_def)
  from h n a b show ?thesis unfolding ws ws1 by simp
qed

text \<open>
  What the invariant gives for a version present in both layers; the invariant itself
  is established from the code by \<open>world_inv_fold_run\<close>.
\<close>

lemma override_precedence_inv:
  assumes "world_inv w" and "heap w self = Some g"
    and "map_of (od_base (grp_functions g)) version = Some base_handler"
    and "map_of (od_overrides (grp_functions g)) version = Some custom_handler"
  shows "fst (SymbolicFunctionGroup_get self version w) = Inr (Some custom_handler)
    \<and> fst (SymbolicFunctionGroup_remove_custom self version w) = Inr ()
    \<and> fst (SymbolicFunctionGroup_get self version
             (snd (SymbolicFunctionGroup_remove_custom self version w)))
        = Inr (Some base_handler)"
proof -
  let ?f = "grp_functions g"
  from assms(1,2) have inv: "od_inv ?f" by (rule world_inv_groupD)
  then have "map_of (od_merged ?f) version = Some custom_handler"
    using assms(4) by (simp add: od_inv_def)
  then have "SymbolicFunctionGroup_get_uncached g version = Inr (Some custom_handler)"
    by (rule get_uncached_member)
  with get_coherent [OF assms(1,2), of version]
  have first: "fst (SymbolicFunctionGroup_get self version w) = Inr (Some custom_handler)"
    by simp
  let ?g' = "g\<lparr>grp_functions := OverrideDict_remove_override version ?f\<rparr>"
  let ?w' = "w\<lparr>heap := (heap w)(self \<mapsto> ?g'), get_cache := Map.empty\<rparr>"
  from assms(4) have ov: "OverrideDict_overridden version ?f"
    by (simp add: OverrideDict_overridden_def)
  with assms(2) have rc: "SymbolicFunctionGroup_remove_custom self version w = (Inr (), ?w')"
    by (simp add: SymbolicFunctionGroup_remove_custom_def Let_def)
  from inv have "od_inv (OverrideDict_remove_override version ?f)"
    by (rule od_inv_remove_override)
  then have "map_of (od_merged (grp_functions ?g')) version = Some base_handler"
    using assms(3)
    by (simp add: od_inv_def OverrideDict_remove_override_def Let_def delete_conv' map_add_def)
  then have "SymbolicFunctionGroup_get_uncached ?g' version = Inr (Some base_handler)"
    by (rule get_uncached_member)
  moreover have "fst (SymbolicFunctionGroup_get self version ?w')
      = SymbolicFunctionGroup_get_uncached ?g' version"
    by (simp add: SymbolicFunctionGroup_get_def split: sum.split)
  ultimately show ?thesis using first rc by simp
qed

lemma heap_run_Add:
  "heap w self = Some g \<Longrightarrow>
   heap (run (Add self h v) w) self
     = Some (g\<lparr>grp_functions := OverrideDict_setitem v h (grp_functions g)\<rparr>)"
  by (simp add: SymbolicFunctionGroup_add_def Let_def)

lemma heap_run_AddCustom:
  "heap w self = Some g \<Longrightarrow>
   heap (run (AddCustom self h v) w) self
     = Some (g\<lparr>grp_functions := OverrideDict_override v h (grp_functions g)\<rparr>)"
  by (simp add: SymbolicFunctionGroup_add_custom_def Let_def)

lemma heap_run_Get: "heap (run (Get self v) w) = heap w"
  by (simp add: SymbolicFunctionGroup_get_def split: option.split sum.split)

lemma layers_after_add_then_custom:
  "map_of (od_base (OverrideDict_override v c (OverrideDict_setitem v b f))) v = Some b"
  "map_of (od_overrides (OverrideDict_override v c (OverrideDict_setitem v b f))) v = Some c"
  by (simp_all add: OverrideDict_override_def OverrideDict_setitem_def Let_def update_conv')

lemma layers_after_custom_then_add:
  "map_of (od_base (OverrideDict_setitem v b (OverrideDict_override v c f))) v = Some b"
  "map_of (od_overrides (OverrideDict_setitem v b (OverrideDict_override v c f))) v = Some c"
  by (simp_all add: OverrideDict_override_def OverrideDict_setitem_def Let_def update_conv')

text \<open>
  C4. After any sequence of calls, in a group where a version has both a base handler
  and a custom handler, \<open>get(version)\<close> returns the custom handler;
  \<open>remove_custom(version)\<close> then returns normally, and after it \<open>get(version)\<close> returns
  the base handler. In particular this is so when the two handlers are registered next,
  by \<open>add\<close> and \<open>add_custom\<close> in either order, with reads of the version in between.
\<close>

theorem custom_overrides_base:
  assumes "heap (fold run calls init_world) self = Some g"
  shows
    "(map_of (od_base (grp_functions g)) version = Some base_handler \<longrightarrow>
      map_of (od_overrides (grp_functions g)) version = Some custom_handler \<longrightarrow>
        fst (SymbolicFunctionGroup_get self version (fold run calls init_world))
          = Inr (Some custom_handler)
        \<and> fst (SymbolicFunctionGroup_remove_custom self version (fold run calls init_world))
          = Inr ()
        \<and> fst (SymbolicFunctionGroup_get self version
             (snd (SymbolicFunctionGroup_remove_custom self version
                (fold run calls init_world))))
          = Inr (Some base_handler))
     \<and> fst (SymbolicFunctionGroup_get self version
          (fold run (calls @ [Add self base_handler version, Get self version,
                              AddCustom self custom_handler version]) init_world))
        = Inr (Some custom_handler)
     \<and> fst (SymbolicFunctionGroup_get self version
          (fold run (calls @ [Add self base_handler version, Get self version,
                              AddCustom self custom_handler version, Get self version,
                              RemoveCustom self version]) init_world))
        = Inr (Some base_handler)
     \<and> fst (SymbolicFunctionGroup_get self version
          (fold run (calls @ [AddCustom self custom_handler version, Get self version,
                              Add self base_handler version]) init_world))
        = Inr (Some custom_handler)
     \<and> fst (SymbolicFunctionGroup_get self version
          (fold run (calls @ [AddCustom self custom_handler version, Get self version,
                              Add self base_handler version, Get self version,
                              RemoveCustom self version]) init_world))
        = Inr (Some base_handler)"
proof -
  let ?w = "fold run calls (init_world :: 'a world)"
  have inv: "\<And>cs. world_inv (fold run cs (init_world :: 'a world))"
    by (rule world_inv_fold_run [OF world_inv_init_world])
  have layered: "map_of (od_base (grp_functions g)) version = Some base_handler \<longrightarrow>
      map_of (od_overrides (grp_functions g)) version = Some custom_handler \<longrightarrow>
        fst (SymbolicFunctionGroup_get self version ?w) = Inr (Some custom_handler)
        \<and> fst (SymbolicFunctionGroup_remove_custom self version ?w) = Inr ()
        \<and> fst (SymbolicFunctionGroup_get self version
             (snd (SymbolicFunctionGroup_remove_custom self version ?w)))
          = Inr (Some base_handler)"
    using override_precedence_inv [OF inv assms] by blast
  let ?bc = "calls @ [Add self base_handler version, Get self version,
                      AddCustom self custom_handler version]"
  let ?gbc = "g\<lparr>grp_functions := OverrideDict_override version custom_handler
                 (OverrideDict_setitem version base_handler (grp_functions g))\<rparr>"
  have hbc: "heap (fold run ?bc init_world) self = Some ?gbc"
    using heap_run_AddCustom [OF trans [OF fun_cong [OF heap_run_Get] heap_run_Add [OF assms]]]
    by simp
  have bc: "fst (SymbolicFunctionGroup_get self version (fold run ?bc init_world))
              = Inr (Some custom_handler)"
    using override_precedence_inv [OF inv hbc, of version base_handler custom_handler]
    by (simp add: layers_after_add_then_custom)
  let ?wbc = "snd (SymbolicFunctionGroup_get self version (fold run ?bc init_world))"
  have "world_inv ?wbc" by (rule world_inv_get [OF inv])
  moreover have "heap ?wbc self = Some ?gbc"
    using hbc heap_run_Get [of self version "fold run ?bc init_world"] by simp
  ultimately have bcr: "fst (SymbolicFunctionGroup_get self version
      (snd (SymbolicFunctionGroup_remove_custom self version ?wbc))) = Inr (Some base_handler)"
    using override_precedence_inv [of ?wbc self ?gbc version base_handler custom_handler]
    by (simp add: layers_after_add_then_custom)
  let ?cb = "calls @ [AddCustom self custom_handler version, Get self version,
                      Add self base_handler version]"
  let ?gcb = "g\<lparr>grp_functions := OverrideDict_setitem version base_handler
                 (OverrideDict_override version custom_handler (grp_functions g))\<rparr>"
  have hcb: "heap (fold run ?cb init_world) self = Some ?gcb"
    using heap_run_Add [OF trans [OF fun_cong [OF heap_run_Get] heap_run_AddCustom [OF assms]]]
    by simp
  have cb: "fst (SymbolicFunctionGroup_get self version (fold run ?cb init_world))
              = Inr (Some custom_handler)"
    using override_precedence_inv [OF inv hcb, of version base_handler custom_handler]
    by (simp add: layers_after_custom_then_add)
  let ?wcb = "snd (SymbolicFunctionGroup_get self version (fold run ?cb init_world))"
  have "world_inv ?wcb" by (rule world_inv_get [OF inv])
  moreover have "heap ?wcb self = Some ?gcb"
    using hcb heap_run_Get [of self version "fold run ?cb init_world"] by simp
  ultimately have cbr: "fst (SymbolicFunctionGroup_get self version
      (snd (SymbolicFunctionGroup_remove_custom self version ?wcb))) = Inr (Some base_handler)"
    using override_precedence_inv [of ?wcb self ?gcb version base_handler custom_handler]
    by (simp add: layers_after_custom_then_add)
  from layered bc bcr cb cbr show ?thesis by simp
qed


theorem custom_overrides_base_witness:
  "heap (fold run [New ''aten::foo'', Add 0 ''v9'' 9, Get 0 9, AddCustom 0 ''c9'' 9]
          init_world) 0
     = Some \<lparr>grp_name = ''aten::foo'',
             grp_functions = \<lparr>od_base = [(9, ''v9'')], od_overrides = [(9, ''c9'')],
                              od_merged = [(9, ''c9'')]\<rparr>\<rparr>
   \<and> get_cache (fold run [New ''aten::foo'', Add 0 ''v9'' 9, Get 0 9] init_world) (0, 9)
       = Some (Some ''v9'')
   \<and> fst (SymbolicFunctionGroup_get 0 9
        (fold run [New ''aten::foo'', Add 0 ''v9'' 9, Get 0 9, AddCustom 0 ''c9'' 9]
           init_world))
       = Inr (Some ''c9'')
   \<and> fst (SymbolicFunctionGroup_get 0 9
        (snd (SymbolicFunctionGroup_remove_custom 0 9
          (fold run [New ''aten::foo'', Add 0 ''v9'' 9, Get 0 9, AddCustom 0 ''c9'' 9]
             init_world))))
       = Inr (Some ''v9'')
   \<and> heap (fold run [New ''aten::bar''] init_world) 0
     = Some \<lparr>grp_name = ''aten::bar'',
             grp_functions = (OverrideDict_init :: (int, string) OverrideDict)\<rparr>
   \<and> fst (SymbolicFunctionGroup_get 0 11
        (fold run ([New ''aten::bar''] @ [AddCustom 0 ''c11'' 11, Get 0 11, Add 0 ''v11'' 11])
           init_world))
       = Inr (Some ''c11'')
   \<and> fst (SymbolicFunctionGroup_get 0 11
        (fold run ([New ''aten::bar''] @ [AddCustom 0 ''c11'' 11, Get 0 11, Add 0 ''v11'' 11,
           Get 0 11, RemoveCustom 0 11]) init_world))
       = Inr (Some ''v11'')"
proof -
  let ?calls = "[New ''aten::foo'', Add 0 ''v9'' 9, Get 0 9, AddCustom 0 ''c9'' 9]"
  let ?g = "\<lparr>grp_name = ''aten::foo'',
             grp_functions = \<lparr>od_base = [(9::int, ''v9'')], od_overrides = [(9, ''c9'')],
                              od_merged = [(9, ''c9'')]\<rparr>\<rparr>"
  let ?bar = "\<lparr>grp_name = ''aten::bar'',
               grp_functions = (OverrideDict_init :: (int, string) OverrideDict)\<rparr>"
  have h: "heap (fold run ?calls init_world) 0 = Some ?g" by (simp add: group_defs)
  have c: "get_cache (fold run [New ''aten::foo'', Add 0 ''v9'' 9, Get 0 9] init_world) (0, 9)
       = Some (Some ''v9'')"
    by (simp add: group_defs)
  have hb: "heap (fold run [New ''aten::bar''] init_world) 0 = Some ?bar"
    by (simp add: SymbolicFunctionGroup_init_def init_world_def)
  have b: "map_of (od_base (grp_functions ?g)) 9 = Some ''v9''" by simp
  have o: "map_of (od_overrides (grp_functions ?g)) 9 = Some ''c9''" by simp
  from custom_overrides_base [OF h, of 9 "''v9''" "''c9''"] b o
  have first: "fst (SymbolicFunctionGroup_get 0 9 (fold run ?calls init_world))
       = Inr (Some ''c9'')
     \<and> fst (SymbolicFunctionGroup_get 0 9
        (snd (SymbolicFunctionGroup_remove_custom 0 9 (fold run ?calls init_world))))
       = Inr (Some ''v9'')"
    by blast
  from custom_overrides_base [OF hb, of 11 "''v11''" "''c11''"]
  have second: "fst (SymbolicFunctionGroup_get 0 11
        (fold run ([New ''aten::bar''] @ [AddCustom 0 ''c11'' 11, Get 0 11, Add 0 ''v11'' 11])
           init_world))
       = Inr (Some ''c11'')
     \<and> fst (SymbolicFunctionGroup_get 0 11
        (fold run ([New ''aten::bar''] @ [AddCustom 0 ''c11'' 11, Get 0 11, Add 0 ''v11'' 11,
           Get 0 11, RemoveCustom 0 11]) init_world))
       = Inr (Some ''v11'')"
    by blast
  from h c hb first second show ?thesis by blast
qed

lemma py_min_Min: "xs \<noteq> [] \<Longrightarrow> py_min xs = Inr (Min (set xs))"
proof (cases xs)
  case Nil
  assume "xs \<noteq> []"
  with Nil show ?thesis by simp
next
  case (Cons a list)
  have "fold min list a = Min (set (a # list))" by (rule Min.set_eq_fold [symmetric])
  with Cons show ?thesis by (simp add: py_min_def)
qed

lemma od_inv_keys:
  "od_inv d \<Longrightarrow> set (OverrideDict_iter d) = fst ` set (od_base d) \<union> fst ` set (od_overrides d)"
proof -
  assume "od_inv d"
  then have "dom (map_of (od_merged d)) = dom (map_of (od_base d) ++ map_of (od_overrides d))"
    by (simp add: od_inv_def)
  then show ?thesis by (auto simp: OverrideDict_iter_def dom_map_of_conv_image_fst)
qed

text \<open>
  C9. On a group with at least one version, in the base layer or in the override layer,
  \<open>get_min_supported\<close> returns the least key of the two layers together, which are the
  keys of the merged view; on a group with no version it raises \<open>ValueError\<close>. It changes
  nothing.
\<close>

theorem get_min_supported_minimum:
  assumes "world_inv w" and "heap w self = Some g"
  shows "(od_base (grp_functions g) \<noteq> [] \<or> od_overrides (grp_functions g) \<noteq> [] \<longrightarrow>
            SymbolicFunctionGroup_get_min_supported self w
              = (Inr (Min (fst ` set (od_base (grp_functions g))
                           \<union> fst ` set (od_overrides (grp_functions g)))), w)
            \<and> fst ` set (od_base (grp_functions g)) \<union> fst ` set (od_overrides (grp_functions g))
              = set (OverrideDict_iter (grp_functions g)))
       \<and> (od_base (grp_functions g) = [] \<and> od_overrides (grp_functions g) = [] \<longrightarrow>
            SymbolicFunctionGroup_get_min_supported self w = (Inl ValueError, w))"
proof -
  let ?f = "grp_functions g"
  from assms have inv: "od_inv ?f" by (rule world_inv_groupD)
  then have keys: "set (OverrideDict_iter ?f) = fst ` set (od_base ?f) \<union> fst ` set (od_overrides ?f)"
    by (rule od_inv_keys)
  have run: "SymbolicFunctionGroup_get_min_supported self w
               = (py_min (OverrideDict_iter ?f), w)"
    using assms(2) by (simp add: SymbolicFunctionGroup_get_min_supported_def)
  have some: "SymbolicFunctionGroup_get_min_supported self w
               = (Inr (Min (fst ` set (od_base ?f) \<union> fst ` set (od_overrides ?f))), w)"
    if "od_base ?f \<noteq> [] \<or> od_overrides ?f \<noteq> []"
  proof -
    from that keys have "set (OverrideDict_iter ?f) \<noteq> {}" by auto
    then have "OverrideDict_iter ?f \<noteq> []" by auto
    then have "py_min (OverrideDict_iter ?f) = Inr (Min (set (OverrideDict_iter ?f)))"
      by (rule py_min_Min)
    with run keys show ?thesis by simp
  qed
  have none: "SymbolicFunctionGroup_get_min_supported self w = (Inl ValueError, w)"
    if "od_base ?f = [] \<and> od_overrides ?f = []"
  proof -
    from that keys have "OverrideDict_iter ?f = []" by simp
    with run show ?thesis by (simp add: py_min_def)
  qed
  from some none keys show ?thesis by blast
qed


theorem get_min_supported_minimum_witness:
  "world_inv (fold run [New ''aten::foo'', Add 0 ''v11'' 11, AddCustom 0 ''c7'' 7, New ''aten::bar'']
        (init_world :: string world))
   \<and> SymbolicFunctionGroup_get_min_supported 0
        (fold run [New ''aten::foo'', Add 0 ''v11'' 11, AddCustom 0 ''c7'' 7, New ''aten::bar'']
           (init_world :: string world))
      = (Inr 7,
         fold run [New ''aten::foo'', Add 0 ''v11'' 11, AddCustom 0 ''c7'' 7, New ''aten::bar'']
           init_world)
   \<and> SymbolicFunctionGroup_get_min_supported 1
        (fold run [New ''aten::foo'', Add 0 ''v11'' 11, AddCustom 0 ''c7'' 7, New ''aten::bar'']
           (init_world :: string world))
      = (Inl ValueError,
         fold run [New ''aten::foo'', Add 0 ''v11'' 11, AddCustom 0 ''c7'' 7, New ''aten::bar'']
           init_world)"
proof -
  let ?w = "fold run [New ''aten::foo'', Add 0 ''v11'' 11, AddCustom 0 ''c7'' 7, New ''aten::bar'']
              (init_world :: string world)"
  let ?foo = "\<lparr>grp_name = ''aten::foo'',
             grp_functions = \<lparr>od_base = [(11::int, ''v11'')], od_overrides = [(7, ''c7'')],
                              od_merged = [(11, ''v11''), (7, ''c7'')]\<rparr>\<rparr>"
  let ?bar = "\<lparr>grp_name = ''aten::bar'',
             grp_functions = \<lparr>od_base = ([] :: (int \<times> string) list), od_overrides = [],
                              od_merged = []\<rparr>\<rparr>"
  have i: "world_inv ?w" by (rule world_inv_fold_run [OF world_inv_init_world])
  have h0: "heap ?w 0 = Some ?foo" by (simp add: group_defs)
  have h1: "heap ?w 1 = Some ?bar" by (simp add: group_defs)
  from i get_min_supported_minimum [OF i h0] get_min_supported_minimum [OF i h1]
  show ?thesis by simp
qed

subsection \<open>Claim on the override dictionary\<close>

text \<open>
  C7. After any sequence of \<open>__setitem__\<close>, \<open>override\<close> and \<open>remove_override\<close> on a new
  \<open>OverrideDict\<close>, the merged dictionary is, as a mapping, the base with the overrides
  on top, and \<open>get\<close>, \<open>__getitem__\<close>, \<open>__contains__\<close>, \<open>__iter__\<close>, \<open>__len__\<close> and
  \<open>__bool__\<close> answer as that mapping does.
\<close>

theorem merged_is_base_with_overrides:
  "let d = fold od_run calls OverrideDict_init;
       m = map_of (od_base d) ++ map_of (od_overrides d)
   in map_of (od_merged d) = m
      \<and> (\<forall>key dflt. OverrideDict_get key dflt d
            = (case m key of None \<Rightarrow> dflt | Some v \<Rightarrow> Some v))
      \<and> (\<forall>key. OverrideDict_getitem key d
            = (case m key of None \<Rightarrow> Inl (KeyError key) | Some v \<Rightarrow> Inr v))
      \<and> (\<forall>key. OverrideDict_contains key d \<longleftrightarrow> key \<in> dom m)
      \<and> set (OverrideDict_iter d) = dom m
      \<and> distinct (OverrideDict_iter d)
      \<and> OverrideDict_len d = card (dom m)
      \<and> (OverrideDict_bool d \<longleftrightarrow> m \<noteq> Map.empty)"
proof -
  define d where "d = fold od_run calls (OverrideDict_init :: ('a, 'b) OverrideDict)"
  define m where "m = map_of (od_base d) ++ map_of (od_overrides d)"
  have "od_inv d" unfolding d_def by (rule od_inv_fold_run [OF od_inv_init])
  then have merged: "map_of (od_merged d) = m" and dist: "distinct (map fst (od_merged d))"
    by (simp_all add: od_inv_def m_def)
  have keys: "set (OverrideDict_iter d) = dom m"
    using merged by (simp add: OverrideDict_iter_def dom_map_of_conv_image_fst [symmetric])
  have len: "OverrideDict_len d = card (dom m)"
  proof -
    from dist have "card (set (map fst (od_merged d))) = length (map fst (od_merged d))"
      by (rule distinct_card)
    with keys show ?thesis by (simp add: OverrideDict_len_def OverrideDict_iter_def)
  qed
  have nonempty: "OverrideDict_bool d \<longleftrightarrow> m \<noteq> Map.empty"
    using merged [symmetric] by (cases "od_merged d") (auto simp: OverrideDict_bool_def)
  from merged dist keys len nonempty
  have "map_of (od_merged d) = m
      \<and> (\<forall>key dflt. OverrideDict_get key dflt d
            = (case m key of None \<Rightarrow> dflt | Some v \<Rightarrow> Some v))
      \<and> (\<forall>key. OverrideDict_getitem key d
            = (case m key of None \<Rightarrow> Inl (KeyError key) | Some v \<Rightarrow> Inr v))
      \<and> (\<forall>key. OverrideDict_contains key d \<longleftrightarrow> key \<in> dom m)
      \<and> set (OverrideDict_iter d) = dom m
      \<and> distinct (OverrideDict_iter d)
      \<and> OverrideDict_len d = card (dom m)
      \<and> (OverrideDict_bool d \<longleftrightarrow> m \<noteq> Map.empty)"
    by (simp add: OverrideDict_get_def OverrideDict_getitem_def OverrideDict_contains_def
        OverrideDict_iter_def dom_def)
  then show ?thesis by (simp add: Let_def d_def m_def)
qed

lemmas od_defs =
  OverrideDict_init_def OverrideDict_setitem_def OverrideDict_override_def
  OverrideDict_remove_override_def OverrideDict_get_def OverrideDict_getitem_def
  OverrideDict_contains_def OverrideDict_iter_def OverrideDict_len_def OverrideDict_bool_def
  dict_merge_def Let_def

theorem merged_is_base_with_overrides_witness:
  "fold od_run [SetItem 9 ''v9'', Override 9 ''c9'', Override 11 ''c11'', RemoveOverride 9,
                SetItem (13::int) ''v13''] OverrideDict_init
     = \<lparr>od_base = [(9, ''v9''), (13, ''v13'')], od_overrides = [(11, ''c11'')],
        od_merged = [(9, ''v9''), (13, ''v13''), (11, ''c11'')]\<rparr>
   \<and> map_of [(9::int, ''v9''), (13, ''v13''), (11, ''c11'')]
       = map_of [(9, ''v9''), (13, ''v13'')] ++ map_of [(11, ''c11'')]
   \<and> card (dom (map_of [(9::int, ''v9''), (13, ''v13'')] ++ map_of [(11, ''c11'')])) = 3"
proof -
  have run: "fold od_run [SetItem 9 ''v9'', Override 9 ''c9'', Override 11 ''c11'',
                RemoveOverride 9, SetItem (13::int) ''v13''] OverrideDict_init
     = \<lparr>od_base = [(9, ''v9''), (13, ''v13'')], od_overrides = [(11, ''c11'')],
        od_merged = [(9, ''v9''), (13, ''v13''), (11, ''c11'')]\<rparr>"
    by (simp add: od_defs)
  have len: "OverrideDict_len \<lparr>od_base = [(9::int, ''v9''), (13, ''v13'')],
       od_overrides = [(11, ''c11'')],
       od_merged = [(9, ''v9''), (13, ''v13''), (11, ''c11'')]\<rparr> = 3"
    by (simp add: OverrideDict_len_def)
  from merged_is_base_with_overrides
    [of "[SetItem 9 ''v9'', Override 9 ''c9'', Override 11 ''c11'', RemoveOverride 9,
          SetItem (13::int) ''v13'']"]
  have "map_of [(9::int, ''v9''), (13, ''v13''), (11, ''c11'')]
       = map_of [(9, ''v9''), (13, ''v13'')] ++ map_of [(11, ''c11'')]
     \<and> card (dom (map_of [(9::int, ''v9''), (13, ''v13'')] ++ map_of [(11, ''c11'')])) = 3"
    unfolding run Let_def using len by simp
  with run show ?thesis by simp
qed

lemma map_of_merge_not_overridden:
  assumes "map_of ov k = None"
  shows "map_of (dict_merge b ov) k = map_of b k"
proof -
  from assms have "k \<notin> fst ` set ov" by (simp add: map_of_eq_None_iff)
  then have "map_of (rev ov) k = None" by (simp add: map_of_eq_None_iff)
  then show ?thesis by (simp add: map_of_dict_merge_rev map_add_def)
qed

lemma get_after_add:
  assumes "\<not> OverrideDict_overridden version (grp_functions g)"
  shows "SymbolicFunctionGroup_get_uncached
           (g\<lparr>grp_functions := OverrideDict_setitem version func (grp_functions g)\<rparr>) version
         = Inr (Some func)"
proof (rule get_uncached_member)
  from assms have "map_of (od_overrides (grp_functions g)) version = None"
    by (simp add: OverrideDict_overridden_def)
  then show "map_of (od_merged (grp_functions
      (g\<lparr>grp_functions := OverrideDict_setitem version func (grp_functions g)\<rparr>))) version
      = Some func"
    by (simp add: OverrideDict_setitem_def Let_def map_of_merge_not_overridden update_conv')
qed

lemma get_empty_cache:
  "heap w self = Some g \<Longrightarrow> get_cache w = Map.empty \<Longrightarrow>
   fst (SymbolicFunctionGroup_get self opset w) = SymbolicFunctionGroup_get_uncached g opset"
  by (simp add: SymbolicFunctionGroup_get_def split: sum.split)

subsection \<open>Claim on registering\<close>

text \<open>
  C6. For a name in which \<open>::\<close> occurs, when the group registered under the name, if there
  is one, has no custom override at the version: \<open>register(name, version, handler)\<close> with
  \<open>custom=False\<close> returns normally, and after it \<open>is_registered_op(name, version)\<close> is true
  and \<open>get_function_group(name).get(version)\<close> returns the handler.
\<close>

theorem register_then_registered:
  assumes "\<exists>p q. name = p @ ''::'' @ q"
    and "world_inv w" and "registry_inv reg w"
    and "\<forall>self g. map_of reg name = Some self \<longrightarrow> heap w self = Some g \<longrightarrow>
           \<not> OverrideDict_overridden version (grp_functions g)"
  shows "case SymbolicRegistry_register reg name version func False w of
           (r, reg', w') \<Rightarrow>
             r = Inr ()
             \<and> fst (SymbolicRegistry_is_registered_op reg' name version w') = Inr True
             \<and> (\<exists>self. SymbolicRegistry_get_function_group reg' name = Some self
                  \<and> fst (SymbolicFunctionGroup_get self version w') = Inr (Some func))"
proof -
  from assms(1) have valid: "str_contains ''::'' name" by (simp add: str_contains_iff)
  let ?fresh = "next_id w"
  let ?empty = "\<lparr>grp_name = name, grp_functions = OverrideDict_init\<rparr> :: 'a SymbolicFunctionGroup"
  let ?w1 = "w\<lparr>heap := (heap w)(?fresh \<mapsto> ?empty), next_id := Suc ?fresh\<rparr>"
  have init: "SymbolicFunctionGroup_init name w = (?fresh, ?w1)"
    by (simp add: SymbolicFunctionGroup_init_def)
  have main: "\<exists>self g reg' w'.
      SymbolicRegistry_register reg name version func False w = (Inr (), reg', w')
      \<and> map_of reg' name = Some self \<and> heap w' self = Some g \<and> get_cache w' = Map.empty
      \<and> SymbolicFunctionGroup_get_uncached g version = Inr (Some func)"
  proof (cases "map_of reg name")
    case None
    have no: "\<not> OverrideDict_overridden version (grp_functions ?empty)"
      by (simp add: OverrideDict_overridden_def OverrideDict_init_def)
    let ?g' = "?empty\<lparr>grp_functions := OverrideDict_setitem version func (grp_functions ?empty)\<rparr>"
    let ?w2 = "?w1\<lparr>heap := (heap ?w1)(?fresh \<mapsto> ?g'), get_cache := Map.empty\<rparr>"
    have add: "SymbolicFunctionGroup_add ?fresh func version ?w1 = (Inr (), ?w2)"
      by (simp add: SymbolicFunctionGroup_add_def OverrideDict_in_base_def OverrideDict_init_def)
    have "SymbolicRegistry_register reg name version func False w
            = (Inr (), AList.update name ?fresh reg, ?w2)"
      using valid None add
      by (simp add: SymbolicRegistry_register_def init dict_setdefault_def)
    moreover have "map_of (AList.update name ?fresh reg) name = Some ?fresh"
      by (simp add: update_conv')
    moreover have "heap ?w2 ?fresh = Some ?g'" by simp
    moreover have "get_cache ?w2 = Map.empty" by simp
    moreover have "SymbolicFunctionGroup_get_uncached ?g' version = Inr (Some func)"
      using no by (rule get_after_add)
    ultimately show ?thesis by blast
  next
    case (Some self)
    with assms(3) obtain g where g: "heap w self = Some g"
      by (auto simp: registry_inv_def)
    with assms(2) have "self \<noteq> ?fresh" by (auto dest: world_inv_freshD)
    with g have g1: "heap ?w1 self = Some g" by simp
    from assms(4) Some g have no: "\<not> OverrideDict_overridden version (grp_functions g)"
      by blast
    let ?g' = "g\<lparr>grp_functions := OverrideDict_setitem version func (grp_functions g)\<rparr>"
    let ?ws = "if OverrideDict_in_base version (grp_functions g)
               then warnings w @ [OnnxExporterWarning (grp_name g) version] else warnings w"
    let ?w2 = "?w1\<lparr>warnings := ?ws, heap := (heap ?w1)(self \<mapsto> ?g'), get_cache := Map.empty\<rparr>"
    have add: "SymbolicFunctionGroup_add self func version ?w1 = (Inr (), ?w2)"
      using g1 by (simp add: SymbolicFunctionGroup_add_def Let_def)
    have "SymbolicRegistry_register reg name version func False w = (Inr (), reg, ?w2)"
      using valid Some add
      by (simp add: SymbolicRegistry_register_def init dict_setdefault_def)
    moreover have "heap ?w2 self = Some ?g'" by simp
    moreover have "get_cache ?w2 = Map.empty" by simp
    moreover have "SymbolicFunctionGroup_get_uncached ?g' version = Inr (Some func)"
      using no by (rule get_after_add)
    ultimately show ?thesis using Some by blast
  qed
  then obtain self g reg' w' where
    r: "SymbolicRegistry_register reg name version func False w = (Inr (), reg', w')"
    and n: "map_of reg' name = Some self" and h: "heap w' self = Some g"
    and c: "get_cache w' = Map.empty"
    and u: "SymbolicFunctionGroup_get_uncached g version = Inr (Some func)"
    by blast
  from h c u have get: "fst (SymbolicFunctionGroup_get self version w') = Inr (Some func)"
    by (simp add: get_empty_cache)
  then have "fst (SymbolicRegistry_is_registered_op reg' name version w') = Inr True"
    using n
    by (cases "SymbolicFunctionGroup_get self version w'")
      (simp add: SymbolicRegistry_is_registered_op_def SymbolicRegistry_get_function_group_def)
  with r n get show ?thesis by (simp add: SymbolicRegistry_get_function_group_def)
qed


theorem register_then_registered_witness:
  "(\<exists>p q. ''aten::foo'' = p @ ''::'' @ q)
   \<and> world_inv (fold run [New ''aten::foo'', AddCustom 0 ''c9'' 9] (init_world :: string world))
   \<and> registry_inv [(''aten::foo'', 0)]
        (fold run [New ''aten::foo'', AddCustom 0 ''c9'' 9] (init_world :: string world))
   \<and> fst (SymbolicRegistry_register [(''aten::foo'', 0)] ''aten::foo'' 11 ''v11'' False
        (fold run [New ''aten::foo'', AddCustom 0 ''c9'' 9] init_world)) = Inr ()
   \<and> fst (SymbolicRegistry_is_registered_op
        (fst (snd (SymbolicRegistry_register [(''aten::foo'', 0)] ''aten::foo'' 11 ''v11'' False
          (fold run [New ''aten::foo'', AddCustom 0 ''c9'' 9] init_world))))
        ''aten::foo'' 11
        (snd (snd (SymbolicRegistry_register [(''aten::foo'', 0)] ''aten::foo'' 11 ''v11'' False
          (fold run [New ''aten::foo'', AddCustom 0 ''c9'' 9] init_world))))) = Inr True
   \<and> fst (SymbolicRegistry_is_registered_op
        (fst (snd (SymbolicRegistry_register [] ''aten::bar'' 7 ''v7'' False
          (init_world :: string world))))
        ''aten::bar'' 7
        (snd (snd (SymbolicRegistry_register [] ''aten::bar'' 7 ''v7'' False
          (init_world :: string world))))) = Inr True"
proof -
  let ?w = "fold run [New ''aten::foo'', AddCustom 0 ''c9'' 9] (init_world :: string world)"
  let ?reg = "[(''aten::foo'', 0 :: nat)]"
  have a: "\<exists>p q. ''aten::foo'' = p @ ''::'' @ q"
    unfolding str_contains_iff [symmetric] by simp
  have a': "\<exists>p q. ''aten::bar'' = p @ ''::'' @ q"
    unfolding str_contains_iff [symmetric] by simp
  have i: "world_inv ?w" by (rule world_inv_fold_run [OF world_inv_init_world])
  have i': "world_inv (init_world :: string world)" by (rule world_inv_init_world)
  have r: "registry_inv ?reg ?w" by (simp add: registry_inv_def group_defs)
  have r': "registry_inv [] (init_world :: string world)" by (simp add: registry_inv_def)
  have n: "\<forall>self g. map_of ?reg ''aten::foo'' = Some self \<longrightarrow> heap ?w self = Some g \<longrightarrow>
             \<not> OverrideDict_overridden 11 (grp_functions g)"
    by (auto simp: group_defs)
  have n': "\<forall>self g. map_of [] ''aten::bar'' = Some self \<longrightarrow>
             heap (init_world :: string world) self = Some g \<longrightarrow>
             \<not> OverrideDict_overridden 7 (grp_functions g)"
    by simp
  from a i r
    register_then_registered [OF a i r n, of "''v11''"]
    register_then_registered [OF a' i' r' n', of "''v7''"]
  show ?thesis by (simp add: case_prod_beta)
qed

end
